theory Spec2Isabelle
  imports Main "HOL-Library.Word"
begin

section \<open>JavaScript values\<close>

text \<open>
  A JavaScript string is a sequence of UTF-16 code units; a code unit is modelled as a
  natural number. \<open>js\<close> turns an ASCII literal into such a string.
\<close>

type_synonym jsstring = "nat list"

definition js :: "string \<Rightarrow> jsstring" where
  "js s = map of_char s"

text \<open>
  The values \<open>JSON.parse\<close> can return, together with \<open>undefined\<close>. A number is carried
  as the bit pattern of its double; the scripts never look inside one. An object is the
  list of its own enumerable string-keyed properties, in the order \<open>Object.keys\<close> lists them.
\<close>

datatype jsval =
    JUndefined
  | JNull
  | JBool bool
  | JNum "64 word"
  | JStr jsstring
  | JArr "jsval list"
  | JObj "(jsstring \<times> jsval) list"

text \<open>The decimal spelling of an index, as in the property names of a string or an array.\<close>

fun decimal :: "nat \<Rightarrow> jsstring" where
  "decimal n = (if n < 10 then [48 + n] else decimal (n div 10) @ [48 + n mod 10])"

declare decimal.simps [simp del]

text \<open>
  \<open>Object.keys\<close>: a \<open>TypeError\<close> on \<open>null\<close> and \<open>undefined\<close>, no key for a number or a
  boolean (their wrapper objects have no own enumerable property), the indices for a
  string or an array, the property names for an object. An error is the message of the
  exception thrown.
\<close>

fun Object_keys :: "jsval \<Rightarrow> jsstring + jsstring list" where
  "Object_keys JUndefined = Inl (js ''Cannot convert undefined or null to object'')"
| "Object_keys JNull = Inl (js ''Cannot convert undefined or null to object'')"
| "Object_keys (JBool b) = Inr []"
| "Object_keys (JNum d) = Inr []"
| "Object_keys (JStr s) = Inr (map decimal [0..<length s])"
| "Object_keys (JArr xs) = Inr (map decimal [0..<length xs])"
| "Object_keys (JObj kvs) = Inr (map fst kvs)"

section \<open>The host of scripts/enforce-toggles.js\<close>

text \<open>
  What the script reads from its environment: the variable \<open>ENTITLEMENTS_MANIFEST\<close>
  (\<open>None\<close> when it is not set), the directory \<open>ROOT\<close> above the script, \<open>readFileSync\<close>
  on the manifest file and \<open>JSON.parse\<close> (\<open>Inl\<close> is the message of the exception thrown),
  and the tree of directory entries below \<open>SRC_DIR\<close>. A directory entry is a regular
  file with its content, a directory with its entries in the order \<open>readdirSync\<close>
  returns them, or anything else (a symbolic link, a socket, ...), for which both
  \<open>isFile\<close> and \<open>isDirectory\<close> are false.

  The tree is what the disk holds; the calls that read it can fail. \<open>readdir_error\<close>
  gives, for the path of a directory (\<open>SRC_DIR\<close> itself or one below it), the message of
  the exception that \<open>readdirSync\<close> throws on it, and \<open>read_error\<close>, for the path of a
  source file, the message of the exception that \<open>readFileSync\<close> throws on it; \<open>None\<close>
  when the call returns what the tree holds.
\<close>

datatype entry =
    File jsstring jsstring
  | Dir jsstring "entry list"
  | Other jsstring

record host =
  ENTITLEMENTS_MANIFEST :: "jsstring option"
  ROOT :: jsstring
  readFileSync :: "jsstring \<Rightarrow> jsstring + jsstring"
  JSON_parse :: "jsstring \<Rightarrow> jsstring + jsval"
  src_entries :: "entry list"
  readdir_error :: "jsstring \<Rightarrow> jsstring option"
  read_error :: "jsstring \<Rightarrow> jsstring option"

text \<open>
  \<open>path.join\<close> on a normalised path and a name that holds no separator: an empty
  segment is ignored, and one separator stands between the two, also when the path is
  the root \<open>/\<close>.
\<close>

definition join :: "jsstring \<Rightarrow> jsstring \<Rightarrow> jsstring" where
  "join dir name =
     (if dir = [] then name
      else if last dir = 0x2F then dir @ name
      else dir @ js ''/'' @ name)"

text \<open>\<open>process.env.ENTITLEMENTS_MANIFEST || join(ROOT, "config", ...)\<close>: the empty string is falsy.\<close>

definition MANIFEST_PATH :: "host \<Rightarrow> jsstring" where
  "MANIFEST_PATH h =
     (case ENTITLEMENTS_MANIFEST h of
        None \<Rightarrow> join (join (ROOT h) (js ''config'')) (js ''entitlements-manifest.json'')
      | Some p \<Rightarrow>
          if p = [] then join (join (ROOT h) (js ''config'')) (js ''entitlements-manifest.json'')
          else p)"

definition SRC_DIR :: "host \<Rightarrow> jsstring" where
  "SRC_DIR h = join (ROOT h) (js ''src'')"

text \<open>
  What the process writes, and how a run ends: the output and the exit status.
  \<open>Uncaught\<close> is what Node prints for an exception that nothing catches, before it ends
  the process with the exit status 1.
\<close>

datatype console =
    Console_error jsstring jsstring
  | Console_warn "jsstring list"
  | Console_log
  | Uncaught jsstring

type_synonym outcome = "console list \<times> nat"

section \<open>loadManifest\<close>

text \<open>The body of the \<open>try\<close> block; \<open>Inl\<close> is an exception thrown inside it.\<close>

definition loadManifest_try :: "host \<Rightarrow> jsstring + jsval list" where
  "loadManifest_try h =
     (case readFileSync h (MANIFEST_PATH h) of
        Inl e \<Rightarrow> Inl e
      | Inr raw \<Rightarrow>
          (case JSON_parse h raw of
             Inl e \<Rightarrow> Inl e
           | Inr data \<Rightarrow>
               (case data of
                  JArr xs \<Rightarrow> Inr xs
                | _ \<Rightarrow>
                    (case Object_keys data of
                       Inl e \<Rightarrow> Inl e
                     | Inr ks \<Rightarrow> Inr (map JStr ks)))))"

text \<open>The \<open>catch\<close> block prints and calls \<open>process.exit(2)\<close>: \<open>Inl\<close> is the process gone.\<close>

definition loadManifest :: "host \<Rightarrow> outcome + jsval list" where
  "loadManifest h =
     (case loadManifest_try h of
        Inl e \<Rightarrow> Inl ([Console_error (MANIFEST_PATH h) e], 2)
      | Inr keys \<Rightarrow> Inr keys)"

section \<open>walkJsFiles\<close>

text \<open>\<open>/\.(jsx?|tsx?)$/.test(name)\<close>: the name ends with one of the four extensions.\<close>

definition ends_with :: "jsstring \<Rightarrow> jsstring \<Rightarrow> bool" where
  "ends_with name s = (length s \<le> length name \<and> drop (length name - length s) name = s)"

definition js_ext :: "jsstring \<Rightarrow> bool" where
  "js_ext name =
     (ends_with name (js ''.js'') \<or> ends_with name (js ''.jsx'') \<or>
      ends_with name (js ''.ts'') \<or> ends_with name (js ''.tsx''))"

text \<open>
  The generator when no \<open>readdirSync\<close> throws, as the list of what it yields; each path
  is paired with the content the file holds. \<open>walk_entry\<close> is the body of the \<open>for\<close>
  loop.
\<close>

fun walkJsFiles :: "jsstring \<Rightarrow> entry list \<Rightarrow> (jsstring \<times> jsstring) list"
  and walk_entry :: "jsstring \<Rightarrow> entry \<Rightarrow> (jsstring \<times> jsstring) list" where
  "walkJsFiles dir [] = []"
| "walkJsFiles dir (e # es) = walk_entry dir e @ walkJsFiles dir es"
| "walk_entry dir (Dir name sub) =
     (if name \<noteq> js ''node_modules'' then walkJsFiles (join dir name) sub else [])"
| "walk_entry dir (File name content) =
     (if js_ext name then [(join dir name, content)] else [])"
| "walk_entry dir (Other name) = []"

text \<open>
  The generator with its exceptions: what it yields before it ends, and the exception
  that ends it, if one does. \<open>err\<close> gives the exception of \<open>readdirSync\<close> on a directory;
  once it is thrown, nothing more is yielded.
\<close>

fun walkJsFiles_run ::
    "(jsstring \<Rightarrow> jsstring option) \<Rightarrow> jsstring \<Rightarrow> entry list
      \<Rightarrow> (jsstring \<times> jsstring) list \<times> jsstring option"
  and walk_entries_run ::
    "(jsstring \<Rightarrow> jsstring option) \<Rightarrow> jsstring \<Rightarrow> entry list
      \<Rightarrow> (jsstring \<times> jsstring) list \<times> jsstring option"
  and walk_entry_run ::
    "(jsstring \<Rightarrow> jsstring option) \<Rightarrow> jsstring \<Rightarrow> entry
      \<Rightarrow> (jsstring \<times> jsstring) list \<times> jsstring option" where
  "walkJsFiles_run err dir es =
     (case err dir of Some e \<Rightarrow> ([], Some e) | None \<Rightarrow> walk_entries_run err dir es)"
| "walk_entries_run err dir [] = ([], None)"
| "walk_entries_run err dir (e # es) =
     (case walk_entry_run err dir e of
        (files, Some x) \<Rightarrow> (files, Some x)
      | (files, None) \<Rightarrow>
          (case walk_entries_run err dir es of (files', thrown) \<Rightarrow> (files @ files', thrown)))"
| "walk_entry_run err dir (Dir name sub) =
     (if name \<noteq> js ''node_modules'' then walkJsFiles_run err (join dir name) sub else ([], None))"
| "walk_entry_run err dir (File name content) =
     (if js_ext name then ([(join dir name, content)], None) else ([], None))"
| "walk_entry_run err dir (Other name) = ([], None)"

section \<open>TOGGLE_CALL_RE and extractToggleKeysFromFile\<close>

text \<open>The class \<open>\s\<close> of a regular expression without the \<open>u\<close> flag, and the class \<open>['"`]\<close>.\<close>

definition is_space :: "nat \<Rightarrow> bool" where
  "is_space c =
     (c \<in> {0x9, 0xA, 0xB, 0xC, 0xD, 0x20, 0xA0, 0x1680, 0x2028, 0x2029, 0x202F, 0x205F,
            0x3000, 0xFEFF} \<or> (0x2000 \<le> c \<and> c \<le> 0x200A))"

definition is_quote :: "nat \<Rightarrow> bool" where
  "is_quote c = (c = 0x27 \<or> c = 0x22 \<or> c = 0x60)"

fun strip_literal :: "jsstring \<Rightarrow> jsstring \<Rightarrow> jsstring option" where
  "strip_literal [] xs = Some xs"
| "strip_literal (p # ps) [] = None"
| "strip_literal (p # ps) (x # xs) = (if p = x then strip_literal ps xs else None)"

text \<open>
  The pattern \<open>useReleaseToggle\s*\(\s*['"`]([^'"`]+)['"`]\<close> tried at the start of the
  input: the capture and the input left after the match. Both \<open>\s*\<close> and the group are
  greedy, and giving a character back never helps: the character after a run of
  \<open>\s\<close> must not be a space, the one after the group must be a quote.
\<close>

definition match_here :: "jsstring \<Rightarrow> (jsstring \<times> jsstring) option" where
  "match_here xs =
     (case strip_literal (js ''useReleaseToggle'') xs of
        None \<Rightarrow> None
      | Some r1 \<Rightarrow>
          (case dropWhile is_space r1 of
             [] \<Rightarrow> None
           | p # r2 \<Rightarrow>
               if p \<noteq> 0x28 then None
               else
                 (case dropWhile is_space r2 of
                    [] \<Rightarrow> None
                  | q # r3 \<Rightarrow>
                      if \<not> is_quote q then None
                      else
                        (let key = takeWhile (\<lambda>c. \<not> is_quote c) r3
                         in case dropWhile (\<lambda>c. \<not> is_quote c) r3 of
                              [] \<Rightarrow> None
                            | q' # rest \<Rightarrow> if key = [] then None else Some (key, rest)))))"

text \<open>The first position, from the left, at which the pattern matches.\<close>

fun search :: "jsstring \<Rightarrow> (jsstring \<times> jsstring) option" where
  "search [] = match_here []"
| "search (c # cs) =
     (case match_here (c # cs) of Some r \<Rightarrow> Some r | None \<Rightarrow> search cs)"

text \<open>
  \<open>TOGGLE_CALL_RE.exec(content)\<close> for the global expression: the search starts at
  \<open>lastIndex\<close>; a match leaves \<open>lastIndex\<close> at its end, a failure resets it to 0. The
  result is the capture \<open>m[1]\<close> (or \<open>null\<close>) and the new \<open>lastIndex\<close>.
\<close>

definition TOGGLE_CALL_RE_exec :: "jsstring \<Rightarrow> nat \<Rightarrow> jsstring option \<times> nat" where
  "TOGGLE_CALL_RE_exec content lastIndex =
     (if length content < lastIndex then (None, 0)
      else
        (case search (drop lastIndex content) of
           None \<Rightarrow> (None, 0)
         | Some (key, rest) \<Rightarrow> (Some key, length content - length rest)))"

text \<open>A \<open>Set\<close> of strings, in insertion order.\<close>

definition Set_add :: "jsstring \<Rightarrow> jsstring list \<Rightarrow> jsstring list" where
  "Set_add k s = (if k \<in> set s then s else s @ [k])"

text \<open>The loop \<open>while ((m = TOGGLE_CALL_RE.exec(content)) !== null) keys.add(m[1])\<close>.\<close>

function while_exec :: "jsstring \<Rightarrow> nat \<Rightarrow> jsstring list \<Rightarrow> jsstring list \<times> nat" where
  "while_exec content lastIndex keys =
     (case TOGGLE_CALL_RE_exec content lastIndex of
        (None, li) \<Rightarrow> (keys, li)
      | (Some k, li) \<Rightarrow> while_exec content li (Set_add k keys))"
  by pat_completeness auto

termination
proof (relation "measure (\<lambda>(content, lastIndex, keys). length content - lastIndex)")
  show "wf (measure (\<lambda>(content, lastIndex, keys). length content - lastIndex))" by simp
next
  fix content :: jsstring and lastIndex :: nat and keys :: "jsstring list"
    and r :: "jsstring option" and li :: nat and k :: jsstring
  assume "(r, li) = TOGGLE_CALL_RE_exec content lastIndex" "r = Some k"
  then have e: "TOGGLE_CALL_RE_exec content lastIndex = (Some k, li)" by simp
  have strip: "strip_literal p ys = Some r \<Longrightarrow> length r \<le> length ys" for p ys r
    by (induction p ys rule: strip_literal.induct) (auto split: if_splits)
  have dw: "dropWhile P ys = z # zs \<Longrightarrow> length zs < length ys" for P and ys :: jsstring and z zs
    using length_dropWhile_le [of P ys] by simp
  have here: "length rest < length xs" if "match_here xs = Some (key, rest)" for xs key rest
  proof -
    from that obtain r1 p r2 q r3 q' where
      a: "strip_literal (js ''useReleaseToggle'') xs = Some r1"
      and b: "dropWhile is_space r1 = p # r2"
      and c: "dropWhile is_space r2 = q # r3"
      and d: "dropWhile (\<lambda>c. \<not> is_quote c) r3 = q' # rest"
      unfolding match_here_def
      by (auto split: option.splits list.splits if_splits simp: Let_def)
    from strip [OF a] dw [OF b] dw [OF c] dw [OF d] show ?thesis by linarith
  qed
  have found: "search xs = Some (key, rest) \<Longrightarrow> length rest < length xs" for xs key rest
  proof (induction xs)
    case Nil
    then show ?case using here [of "[]" key rest] by simp
  next
    case (Cons c cs)
    show ?case
    proof (cases "match_here (c # cs)")
      case None
      with Cons show ?thesis by fastforce
    next
      case (Some r)
      with Cons.prems show ?thesis using here [of "c # cs" key rest] by simp
    qed
  qed
  from e have le: "lastIndex \<le> length content"
    by (auto simp: TOGGLE_CALL_RE_exec_def split: if_splits)
  with e obtain rest where s: "search (drop lastIndex content) = Some (k, rest)"
    and li: "li = length content - length rest"
    by (auto simp: TOGGLE_CALL_RE_exec_def split: option.splits)
  from found [OF s] le li
  show "((content, li, Set_add k keys), (content, lastIndex, keys))
          \<in> measure (\<lambda>(content, lastIndex, keys). length content - lastIndex)"
    by simp
qed

declare while_exec.simps [simp del]

text \<open>
  The function after its \<open>readFileSync\<close> has returned: the file is the path and the
  content read from it; the expression's \<open>lastIndex\<close> is threaded. The exception of a
  read that fails is raised in \<open>for_files_run\<close> below.
\<close>

definition extractToggleKeysFromFile ::
  "jsstring \<times> jsstring \<Rightarrow> nat \<Rightarrow> jsstring list \<times> nat" where
  "extractToggleKeysFromFile file lastIndex = while_exec (snd file) lastIndex []"

section \<open>extractAllUsedKeys and main\<close>

text \<open>
  The two iterations of \<open>extractAllUsedKeys\<close> over the files of a walk that no exception
  interrupts, and the used keys of such a scan.
\<close>

fun for_files ::
  "(jsstring \<times> jsstring) list \<Rightarrow> nat \<Rightarrow> jsstring list \<Rightarrow> jsstring list \<times> nat" where
  "for_files [] lastIndex used = (used, lastIndex)"
| "for_files (file # files) lastIndex used =
     (case extractToggleKeysFromFile file lastIndex of
        (keys, li) \<Rightarrow> for_files files li (fold Set_add keys used))"

definition extractAllUsedKeys :: "host \<Rightarrow> jsstring list" where
  "extractAllUsedKeys h = fst (for_files (walkJsFiles (SRC_DIR h) (src_entries h)) 0 [])"

text \<open>\<open>[...used].filter((k) => !defined.has(k))\<close>, with \<open>defined\<close> the \<open>Set\<close> of the manifest's values.\<close>

definition unknownKeys :: "jsval set \<Rightarrow> jsstring list \<Rightarrow> jsstring list" where
  "unknownKeys defined used = filter (\<lambda>k. JStr k \<notin> defined) used"

text \<open>
  The iterations with their exceptions. The files come from the generator one at a time, so
  a file that cannot be read throws before a directory further on that cannot be
  listed; \<open>Inl\<close> is the exception, which nothing in the script catches.
\<close>

fun for_files_run ::
  "(jsstring \<Rightarrow> jsstring option) \<Rightarrow> (jsstring \<times> jsstring) list \<Rightarrow> nat \<Rightarrow> jsstring list
    \<Rightarrow> jsstring + jsstring list \<times> nat" where
  "for_files_run err [] lastIndex used = Inr (used, lastIndex)"
| "for_files_run err (file # files) lastIndex used =
     (case err (fst file) of
        Some e \<Rightarrow> Inl e
      | None \<Rightarrow>
          (case extractToggleKeysFromFile file lastIndex of
             (keys, li) \<Rightarrow> for_files_run err files li (fold Set_add keys used)))"

definition extractAllUsedKeys_run :: "host \<Rightarrow> jsstring + jsstring list" where
  "extractAllUsedKeys_run h =
     (case walkJsFiles_run (readdir_error h) (SRC_DIR h) (src_entries h) of
        (files, thrown) \<Rightarrow>
          (case for_files_run (read_error h) files 0 [] of
             Inl e \<Rightarrow> Inl e
           | Inr (used, li) \<Rightarrow> (case thrown of Some e \<Rightarrow> Inl e | None \<Rightarrow> Inr used)))"

text \<open>
  A run that returns from \<open>main\<close> ends with the exit status 0; an exception of the scan
  leaves \<open>main\<close> and the module uncaught, and Node ends the run with the exit status 1.
\<close>

definition main :: "host \<Rightarrow> outcome" where
  "main h =
     (case loadManifest h of
        Inl exited \<Rightarrow> exited
      | Inr manifest \<Rightarrow>
          (let defined = set manifest
           in case extractAllUsedKeys_run h of
                Inl e \<Rightarrow> ([Uncaught e], 1)
              | Inr used \<Rightarrow>
                  (let unknown = unknownKeys defined used
                   in if length unknown > 0 then ([Console_warn unknown], 0)
                      else ([Console_log], 0))))"

section \<open>The hook useReleaseToggle\<close>

text \<open>
  \<open>state.common.entitlements\<close>: \<open>undefined\<close>, \<open>null\<close>, or an object, given by its own
  properties. The second argument is optional (\<open>None\<close>); a missing option is \<open>JUndefined\<close>.
\<close>

datatype entitlements =
    Ent_undefined
  | Ent_null
  | Ent_object "jsstring \<rightharpoonup> jsval"

record options =
  defaultValue :: jsval
  alertIfUnknown :: jsval

definition with_default :: "jsval \<Rightarrow> jsval \<Rightarrow> jsval" where
  "with_default v d = (if v = JUndefined then d else v)"

text \<open>
  The parameter \<open>{ defaultValue = true, alertIfUnknown = true } = {}\<close>: the options
  after both defaults have been applied.
\<close>

definition destructure :: "options option \<Rightarrow> options" where
  "destructure opts =
     (let given = (case opts of
                     None \<Rightarrow> \<lparr>defaultValue = JUndefined, alertIfUnknown = JUndefined\<rparr>
                   | Some opt \<Rightarrow> opt)
      in \<lparr>defaultValue = with_default (defaultValue given) (JBool True),
          alertIfUnknown = with_default (alertIfUnknown given) (JBool True)\<rparr>)"

text \<open>
  \<open>entitlements && Object.prototype.hasOwnProperty.call(entitlements, toggleKey)\<close>, as
  the condition of the conditional expression reads it.
\<close>

fun toggleExists :: "entitlements \<Rightarrow> jsstring \<Rightarrow> bool" where
  "toggleExists Ent_undefined toggleKey = False"
| "toggleExists Ent_null toggleKey = False"
| "toggleExists (Ent_object props) toggleKey = (props toggleKey \<noteq> None)"

text \<open>
  \<open>entitlements[toggleKey]\<close>: a \<open>TypeError\<close> on \<open>undefined\<close> and \<open>null\<close>; a property
  the object does not own is looked up in \<open>Object.prototype\<close>, which is outside the
  model, and read as \<open>undefined\<close>.
\<close>

fun get_property :: "entitlements \<Rightarrow> jsstring \<Rightarrow> jsstring + jsval" where
  "get_property Ent_undefined toggleKey = Inl (js ''Cannot read properties of undefined'')"
| "get_property Ent_null toggleKey = Inl (js ''Cannot read properties of null'')"
| "get_property (Ent_object props) toggleKey =
     (case props toggleKey of Some v \<Rightarrow> Inr v | None \<Rightarrow> Inr JUndefined)"

text \<open>
  The hook's return value; \<open>Inl\<close> is an exception. The effect registered with
  \<open>useEffect\<close> has an empty body and is left out.
\<close>

definition useReleaseToggle ::
  "entitlements \<Rightarrow> jsstring \<Rightarrow> options option \<Rightarrow> jsstring + jsval" where
  "useReleaseToggle ents toggleKey opts =
     (let opt = destructure opts
      in if toggleExists ents toggleKey then get_property ents toggleKey
         else Inr (defaultValue opt))"

section \<open>What the claims are stated with\<close>

text \<open>
  The directories below \<open>dir\<close> that a walk which is not interrupted lists, in the order
  in which it enters them, and the scans that no exception interrupts: \<open>SRC_DIR\<close> and
  every directory the walk enters can be listed, and every file it yields can be read.
\<close>

fun walked_dirs :: "jsstring \<Rightarrow> entry list \<Rightarrow> jsstring list"
  and walked_dirs_entry :: "jsstring \<Rightarrow> entry \<Rightarrow> jsstring list" where
  "walked_dirs dir [] = []"
| "walked_dirs dir (e # es) = walked_dirs_entry dir e @ walked_dirs dir es"
| "walked_dirs_entry dir (Dir name sub) =
     (if name \<noteq> js ''node_modules'' then join dir name # walked_dirs (join dir name) sub else [])"
| "walked_dirs_entry dir (File name content) = []"
| "walked_dirs_entry dir (Other name) = []"

definition scan_completes :: "host \<Rightarrow> bool" where
  "scan_completes h \<longleftrightarrow>
     readdir_error h (SRC_DIR h) = None
     \<and> (\<forall>p \<in> set (walked_dirs (SRC_DIR h) (src_entries h)). readdir_error h p = None)
     \<and> (\<forall>f \<in> set (walkJsFiles (SRC_DIR h) (src_entries h)). read_error h (fst f) = None)"

text \<open>
  The same tree with its directories listed in another order: two neighbours of a
  directory swapped, or the entries of a sub-directory reordered, any number of times.
\<close>

inductive reordered :: "entry list \<Rightarrow> entry list \<Rightarrow> bool" where
  same: "reordered es es"
| swap: "reordered (pre @ a # b # post) (pre @ b # a # post)"
| inside: "reordered sub sub' \<Longrightarrow> reordered (pre @ Dir name sub # post) (pre @ Dir name sub' # post)"
| step: "reordered es es' \<Longrightarrow> reordered es' es'' \<Longrightarrow> reordered es es''"



text \<open>
  The pattern read as a language: \<open>toggle_call m key\<close> holds when the text \<open>m\<close> is the
  hook name, white space, an opening parenthesis, white space, one of the three quote
  characters, the non-empty text \<open>key\<close> free of the three quote characters, and one of
  the three quote characters again.
\<close>

definition toggle_call :: "jsstring \<Rightarrow> jsstring \<Rightarrow> bool" where
  "toggle_call m key \<longleftrightarrow>
     (\<exists>ws1 ws2 q1 q2.
        m = js ''useReleaseToggle'' @ ws1 @ [0x28] @ ws2 @ [q1] @ key @ [q2]
        \<and> (\<forall>c \<in> set ws1. is_space c) \<and> (\<forall>c \<in> set ws2. is_space c)
        \<and> is_quote q1 \<and> is_quote q2 \<and> key \<noteq> [] \<and> (\<forall>c \<in> set key. \<not> is_quote c))"

definition call_at_start :: "jsstring \<Rightarrow> bool" where
  "call_at_start xs \<longleftrightarrow> (\<exists>m key rest. xs = m @ rest \<and> toggle_call m key)"

text \<open>
  The captures of the successive matches in a text, from left to right and without
  overlap: each match is the first one that starts in what the match before it left.
\<close>

inductive successive_matches :: "jsstring \<Rightarrow> jsstring list \<Rightarrow> bool" where
  no_match: "\<forall>i \<le> length xs. \<not> call_at_start (drop i xs) \<Longrightarrow> successive_matches xs []"
| match: "toggle_call m key \<Longrightarrow> \<forall>i < length pre. \<not> call_at_start (drop i (pre @ m @ rest)) \<Longrightarrow>
    successive_matches rest keys \<Longrightarrow> successive_matches (pre @ m @ rest) (key # keys)"

text \<open>
  The claim as it was stated reads the first argument as a string literal: a quote
  character, the content, and the same quote character again, a backtick literal
  holding no substitution. \<open>literal_call content key\<close> holds when \<open>content\<close> has a call
  of the hook on such a literal with the content \<open>key\<close>.
\<close>

definition literal_call :: "jsstring \<Rightarrow> jsstring \<Rightarrow> bool" where
  "literal_call content key \<longleftrightarrow>
     (\<exists>pre ws1 ws2 q post.
        content = pre @ js ''useReleaseToggle'' @ ws1 @ [0x28] @ ws2 @ [q] @ key @ [q] @ post
        \<and> (\<forall>c \<in> set ws1. is_space c) \<and> (\<forall>c \<in> set ws2. is_space c)
        \<and> is_quote q \<and> q \<notin> set key
        \<and> (q = 0x60 \<longrightarrow> \<not> (\<exists>a b. key = a @ js ''${'' @ b)))"

section \<open>Example projects\<close>

text \<open>
  Two source files, one of them in a sub-directory, and a vendored file below
  \<open>node_modules\<close>. \<open>example_host text parsed\<close> is a host whose manifest file holds \<open>text\<close>,
  which \<open>JSON.parse\<close> maps to \<open>parsed\<close>.
\<close>

definition example_tree :: "entry list" where
  "example_tree =
     [File (js ''App.jsx'') (js ''useReleaseToggle('exampleFeature')''),
      Dir (js ''pages'') [File (js ''Home.tsx'') (js ''useReleaseToggle('exmapleFeature')'')],
      Dir (js ''node_modules'') [File (js ''dep.js'') (js ''useReleaseToggle('vendored')'')]]"

definition example_host :: "jsstring \<Rightarrow> jsstring + jsval \<Rightarrow> host" where
  "example_host text parsed =
     \<lparr>ENTITLEMENTS_MANIFEST = None,
      ROOT = js ''/repo'',
      readFileSync = (\<lambda>p. if p = js ''/repo/config/entitlements-manifest.json'' then Inr text
                          else Inl (js ''ENOENT'')),
      JSON_parse = (\<lambda>raw. if raw = text then parsed else Inl (js ''Unexpected token'')),
      src_entries = example_tree,
      readdir_error = (\<lambda>p. None),
      read_error = (\<lambda>p. None)\<rparr>"

text \<open>
  The manifest of the project is \<open>["exampleFeature", "anotherToggle"]\<close>; the key
  \<open>exmapleFeature\<close> used in Home.tsx is a typo.
\<close>

definition array_host :: host where
  "array_host =
     example_host (js ''[\"exampleFeature\", \"anotherToggle\"]'')
       (Inr (JArr [JStr (js ''exampleFeature''), JStr (js ''anotherToggle'')]))"

definition typo_host :: host where
  "typo_host =
     example_host (js ''{\"exampleFeature\": {}, \"exmapleFeature\": {}}'')
       (Inr (JObj [(js ''exampleFeature'', JObj []), (js ''exmapleFeature'', JObj [])]))"

text \<open>A manifest file that holds the JSON document \<open>null\<close>.\<close>

definition null_host :: host where
  "null_host = example_host (js ''null'') (Inr JNull)"

text \<open>
  The project with the manifest \<open>["exampleFeature", "anotherToggle"]\<close> and a directory
  \<open>pages\<close> that cannot be listed.
\<close>

definition unlisted_host :: host where
  "unlisted_host =
     array_host\<lparr>readdir_error :=
       (\<lambda>p. if p = js ''/repo/src/pages'' then Some (js ''EACCES: permission denied, scandir'')
            else None)\<rparr>"

text \<open>The project with no manifest file at the path given, and with one that is not JSON.\<close>

definition missing_manifest_host :: host where
  "missing_manifest_host =
     (example_host (js ''[]'') (Inr (JArr [])))\<lparr>ENTITLEMENTS_MANIFEST := Some (js ''nowhere.json'')\<rparr>"

definition unparsable_host :: host where
  "unparsable_host = example_host (js ''[,'') (Inl (js ''Unexpected token , in JSON''))"

text \<open>The manifests \<open>["a","b"]\<close> and \<open>{"a":{}, "b":{}}\<close> on the example project.\<close>

definition ab_array_host :: host where
  "ab_array_host = example_host (js ''[\"a\",\"b\"]'') (Inr (JArr [JStr (js ''a''), JStr (js ''b'')]))"

definition ab_object_host :: host where
  "ab_object_host =
     example_host (js ''{\"a\":{}, \"b\":{}}'') (Inr (JObj [(js ''a'', JObj []), (js ''b'', JObj [])]))"

text \<open>Manifest files that hold \<open>null\<close>, \<open>7\<close> and \<open>"ab"\<close>, and one that is not JSON.\<close>

definition null_document_host :: host where
  "null_document_host = example_host (js ''null'') (Inr JNull)"

definition number_host :: host where
  "number_host = example_host (js ''7'') (Inr (JNum 0x401C000000000000))"

definition string_host :: host where
  "string_host = example_host (js ''\"ab\"'') (Inr (JStr (js ''ab'')))"

definition broken_host :: host where
  "broken_host = example_host (js ''{'') (Inl (js ''Unexpected end of JSON input''))"


text \<open>The example project with the sub-directory listed before App.jsx.\<close>

definition example_tree_reordered :: "entry list" where
  "example_tree_reordered =
     [Dir (js ''pages'') [File (js ''Home.tsx'') (js ''useReleaseToggle('exmapleFeature')'')],
      File (js ''App.jsx'') (js ''useReleaseToggle('exampleFeature')''),
      Dir (js ''node_modules'') [File (js ''dep.js'') (js ''useReleaseToggle('vendored')'')]]"

section \<open>Facts about the iteration\<close>

lemma while_exec_unfold:
  "while_exec c li keys =
     (if fst (TOGGLE_CALL_RE_exec c li) = None then (keys, snd (TOGGLE_CALL_RE_exec c li))
      else while_exec c (snd (TOGGLE_CALL_RE_exec c li))
             (Set_add (the (fst (TOGGLE_CALL_RE_exec c li))) keys))"
  by (subst while_exec.simps) (auto split: prod.splits option.splits)

lemma exec_None_lastIndex: "TOGGLE_CALL_RE_exec c li = (None, li') \<Longrightarrow> li' = 0"
  by (auto simp: TOGGLE_CALL_RE_exec_def split: if_splits option.splits)

lemma while_exec_lastIndex: "snd (while_exec c li keys) = 0"
proof (induction c li keys rule: while_exec.induct)
  case (1 content lastIndex keys)
  show ?case
  proof (cases "TOGGLE_CALL_RE_exec content lastIndex")
    case (Pair r li)
    show ?thesis
    proof (cases r)
      case None
      with Pair show ?thesis
        using exec_None_lastIndex [of content lastIndex li]
        by (subst while_exec.simps) simp
    next
      case (Some k)
      with Pair "1.IH" [of r li k] show ?thesis
        by (subst while_exec.simps) simp
    qed
  qed
qed

lemma Set_add_set: "set (Set_add k s) = insert k (set s)"
  by (auto simp: Set_add_def)


lemma fold_Set_add_set: "set (fold Set_add ks s) = set ks \<union> set s"
  by (induction ks arbitrary: s) (auto simp: Set_add_set)



lemma extract_lastIndex: "snd (extractToggleKeysFromFile file li) = 0"
  by (simp add: extractToggleKeysFromFile_def while_exec_lastIndex)

lemma for_files_set:
  "set (fst (for_files files 0 used)) =
     set used \<union> (\<Union>file \<in> set files. set (fst (extractToggleKeysFromFile file 0)))"
proof (induction files arbitrary: used)
  case Nil
  show ?case by simp
next
  case (Cons f fs)
  obtain keys li where e: "extractToggleKeysFromFile f 0 = (keys, li)"
    by (cases "extractToggleKeysFromFile f 0")
  with extract_lastIndex [of f 0] have "li = 0" by simp
  with e Cons.IH [of "fold Set_add keys used"] show ?case
    by (auto simp: fold_Set_add_set)
qed


lemma extractAllUsedKeys_set:
  "set (extractAllUsedKeys h) =
     (\<Union>file \<in> set (walkJsFiles (SRC_DIR h) (src_entries h)).
        set (fst (extractToggleKeysFromFile file 0)))"
  by (simp add: extractAllUsedKeys_def for_files_set)


section \<open>Facts about the exceptions of the scan\<close>

lemma walk_run_None:
  "snd (walkJsFiles_run err dir es) = None \<longleftrightarrow>
     err dir = None \<and> (\<forall>p \<in> set (walked_dirs dir es). err p = None)"
  "snd (walk_entries_run err dir es) = None \<longleftrightarrow> (\<forall>p \<in> set (walked_dirs dir es). err p = None)"
  "snd (walk_entry_run err dir e) = None \<longleftrightarrow> (\<forall>p \<in> set (walked_dirs_entry dir e). err p = None)"
proof (induction err dir es and err dir es and err dir e
    rule: walkJsFiles_run_walk_entries_run_walk_entry_run.induct)
  case (1 err dir es)
  then show ?case by (cases "err dir") auto
next
  case (2 err dir)
  show ?case by simp
next
  case (3 err dir e es)
  obtain files thrown where e: "walk_entry_run err dir e = (files, thrown)"
    by (cases "walk_entry_run err dir e")
  show ?case
  proof (cases thrown)
    case None
    with e "3.IH" show ?thesis by (auto split: prod.splits)
  next
    case (Some x)
    with e "3.IH"(1) show ?thesis by auto
  qed
next
  case (4 err dir name sub)
  then show ?case by auto
next
  case (5 err dir name content)
  show ?case by simp
next
  case (6 err dir name)
  show ?case by simp
qed

lemma walk_run_files:
  "snd (walkJsFiles_run err dir es) = None \<Longrightarrow> fst (walkJsFiles_run err dir es) = walkJsFiles dir es"
  "snd (walk_entries_run err dir es) = None \<Longrightarrow> fst (walk_entries_run err dir es) = walkJsFiles dir es"
  "snd (walk_entry_run err dir e) = None \<Longrightarrow> fst (walk_entry_run err dir e) = walk_entry dir e"
proof (induction err dir es and err dir es and err dir e
    rule: walkJsFiles_run_walk_entries_run_walk_entry_run.induct)
  case (1 err dir es)
  then show ?case by (cases "err dir") auto
next
  case (2 err dir)
  show ?case by simp
next
  case (3 err dir e es)
  obtain files thrown where e: "walk_entry_run err dir e = (files, thrown)"
    by (cases "walk_entry_run err dir e")
  with "3.prems" have t: "thrown = None" by (cases thrown) auto
  with e "3.prems" have s: "snd (walk_entries_run err dir es) = None"
    by (auto split: prod.splits)
  from e t "3.IH"(1) have "files = walk_entry dir e" by simp
  moreover from e t s "3.IH"(2)
  have "fst (walk_entries_run err dir es) = walkJsFiles dir es" by auto
  ultimately show ?case using e t by (auto split: prod.splits)
next
  case (4 err dir name sub)
  then show ?case by auto
next
  case (5 err dir name content)
  show ?case by simp
next
  case (6 err dir name)
  show ?case by simp
qed

lemma for_files_run_Inr:
  "for_files_run err files li used = Inr z \<longleftrightarrow>
     (\<forall>f \<in> set files. err (fst f) = None) \<and> z = for_files files li used"
proof (induction files arbitrary: li used)
  case Nil
  show ?case by auto
next
  case (Cons f fs)
  show ?case
  proof (cases "err (fst f)")
    case None
    obtain keys li' where "extractToggleKeysFromFile f li = (keys, li')"
      by (cases "extractToggleKeysFromFile f li")
    with None Cons.IH [of li' "fold Set_add keys used"] show ?thesis by simp
  next
    case (Some e)
    then show ?thesis by simp
  qed
qed

lemma run_Inr:
  "extractAllUsedKeys_run h = Inr used \<longleftrightarrow> scan_completes h \<and> used = extractAllUsedKeys h"
proof -
  obtain files thrown where w: "walkJsFiles_run (readdir_error h) (SRC_DIR h) (src_entries h)
      = (files, thrown)"
    by (cases "walkJsFiles_run (readdir_error h) (SRC_DIR h) (src_entries h)")
  show ?thesis
  proof (cases thrown)
    case (Some e)
    with w have "extractAllUsedKeys_run h \<noteq> Inr used"
      by (simp add: extractAllUsedKeys_run_def split: sum.splits)
    moreover from Some w walk_run_None(1) [of "readdir_error h" "SRC_DIR h" "src_entries h"]
    have "\<not> scan_completes h" by (auto simp: scan_completes_def)
    ultimately show ?thesis by simp
  next
    case None
    with w walk_run_files(1) [of "readdir_error h" "SRC_DIR h" "src_entries h"]
    have f: "files = walkJsFiles (SRC_DIR h) (src_entries h)" by simp
    from None w walk_run_None(1) [of "readdir_error h" "SRC_DIR h" "src_entries h"]
    have d: "readdir_error h (SRC_DIR h) = None
      \<and> (\<forall>p \<in> set (walked_dirs (SRC_DIR h) (src_entries h)). readdir_error h p = None)"
      by simp
    show ?thesis
    proof (cases "for_files_run (read_error h) files 0 []")
      case (Inl e)
      with for_files_run_Inr [of "read_error h" files 0 "[]" "for_files files 0 []"]
      have "\<not> (\<forall>f \<in> set files. read_error h (fst f) = None)" by auto
      with f have "\<not> scan_completes h" by (simp add: scan_completes_def)
      moreover from Inl w have "extractAllUsedKeys_run h \<noteq> Inr used"
        by (simp add: extractAllUsedKeys_run_def)
      ultimately show ?thesis by simp
    next
      case (Inr z)
      with for_files_run_Inr [of "read_error h" files 0 "[]" z] f d
      have c: "scan_completes h" and z: "z = for_files (walkJsFiles (SRC_DIR h) (src_entries h)) 0 []"
        by (auto simp: scan_completes_def)
      from Inr w None z have "extractAllUsedKeys_run h = Inr (extractAllUsedKeys h)"
        by (simp add: extractAllUsedKeys_run_def extractAllUsedKeys_def split: prod.splits)
      with c show ?thesis by auto
    qed
  qed
qed

lemma run_completes: "scan_completes h \<Longrightarrow> extractAllUsedKeys_run h = Inr (extractAllUsedKeys h)"
  by (simp add: run_Inr)

lemma run_interrupted: "\<not> scan_completes h \<Longrightarrow> \<exists>e. extractAllUsedKeys_run h = Inl e"
  using run_Inr [of h] by (cases "extractAllUsedKeys_run h") auto

section \<open>The script on the example project\<close>

lemmas eval_defs =
  extractToggleKeysFromFile_def while_exec_unfold TOGGLE_CALL_RE_exec_def match_here_def
  js_def is_space_def is_quote_def Set_add_def join_def js_ext_def ends_with_def

lemma example_read:
  "readFileSync (example_host text parsed) (MANIFEST_PATH (example_host text parsed)) = Inr text"
  by (simp add: example_host_def MANIFEST_PATH_def join_def js_def)

lemma example_parse: "JSON_parse (example_host text parsed) text = parsed"
  by (simp add: example_host_def)

lemma example_walk:
  "walkJsFiles (SRC_DIR (example_host text parsed)) (src_entries (example_host text parsed)) =
     [(js ''/repo/src/App.jsx'', js ''useReleaseToggle('exampleFeature')''),
      (js ''/repo/src/pages/Home.tsx'', js ''useReleaseToggle('exmapleFeature')'')]"
  by (simp add: example_host_def example_tree_def SRC_DIR_def join_def js_ext_def ends_with_def js_def)

lemma example_used:
  "extractAllUsedKeys (example_host text parsed) = [js ''exampleFeature'', js ''exmapleFeature'']"
  unfolding extractAllUsedKeys_def example_walk
  by (simp add: eval_defs)

lemma loadManifest_readdir_error:
  "loadManifest (h\<lparr>readdir_error := f\<rparr>) = loadManifest h"
proof -
  have p: "MANIFEST_PATH (h\<lparr>readdir_error := f\<rparr>) = MANIFEST_PATH h"
    by (simp add: MANIFEST_PATH_def cong: option.case_cong if_cong)
  have "loadManifest_try (h\<lparr>readdir_error := f\<rparr>) = loadManifest_try h"
    by (simp add: loadManifest_try_def p cong: sum.case_cong)
  with p show ?thesis by (simp add: loadManifest_def cong: sum.case_cong)
qed

lemma example_completes: "scan_completes (example_host text parsed)"
  by (simp add: scan_completes_def example_host_def)

lemma example_run:
  "extractAllUsedKeys_run (example_host text parsed)
     = Inr [js ''exampleFeature'', js ''exmapleFeature'']"
  using run_completes [OF example_completes] by (simp add: example_used)

lemma example_try:
  "loadManifest_try (example_host text (Inr data)) =
     (case data of JArr xs \<Rightarrow> Inr xs
      | _ \<Rightarrow> (case Object_keys data of Inl e \<Rightarrow> Inl e | Inr ks \<Rightarrow> Inr (map JStr ks)))"
  by (simp add: loadManifest_try_def example_read example_parse)

section \<open>The hook\<close>

text \<open>
  Claim C7. For every toggle key and every entitlement state, \<open>useReleaseToggle\<close> returns
  the value the entitlements object holds for the key when the key is an own property
  of it, and the default value when the key is absent or the entitlements are \<open>null\<close>
  or \<open>undefined\<close>; the default value is \<open>true\<close> unless the caller gives one.
\<close>

theorem useReleaseToggle_lookup:
  "(props toggleKey = Some v \<longrightarrow> useReleaseToggle (Ent_object props) toggleKey opts = Inr v)
   \<and> (props toggleKey = None \<longrightarrow>
        useReleaseToggle (Ent_object props) toggleKey opts = Inr (defaultValue (destructure opts)))
   \<and> useReleaseToggle Ent_null toggleKey opts = Inr (defaultValue (destructure opts))
   \<and> useReleaseToggle Ent_undefined toggleKey opts = Inr (defaultValue (destructure opts))
   \<and> defaultValue (destructure None) = JBool True
   \<and> defaultValue (destructure (Some opt)) =
        (if defaultValue opt = JUndefined then JBool True else defaultValue opt)"
  by (simp add: useReleaseToggle_def destructure_def with_default_def)

theorem useReleaseToggle_lookup_witness:
  "[js ''beta'' \<mapsto> JBool False] (js ''beta'') = Some (JBool False)
   \<and> useReleaseToggle (Ent_object [js ''beta'' \<mapsto> JBool False]) (js ''beta'') None
       = Inr (JBool False)
   \<and> [js ''beta'' \<mapsto> JBool False] (js ''gamma'') = None
   \<and> useReleaseToggle (Ent_object [js ''beta'' \<mapsto> JBool False]) (js ''gamma'') None
       = Inr (JBool True)
   \<and> useReleaseToggle (Ent_object [js ''beta'' \<mapsto> JBool False]) (js ''gamma'')
         (Some \<lparr>defaultValue = JBool False, alertIfUnknown = JUndefined\<rparr>)
       = Inr (JBool False)"
  using useReleaseToggle_lookup [of "[js ''beta'' \<mapsto> JBool False]" "js ''beta''" "JBool False" None]
    useReleaseToggle_lookup [of "[js ''beta'' \<mapsto> JBool False]" "js ''gamma''" _ None]
    useReleaseToggle_lookup [of "[js ''beta'' \<mapsto> JBool False]" "js ''gamma''" _
      "Some \<lparr>defaultValue = JBool False, alertIfUnknown = JUndefined\<rparr>"
      "\<lparr>defaultValue = JBool False, alertIfUnknown = JUndefined\<rparr>"]
  by (simp add: js_def)

section \<open>The comparison\<close>

text \<open>
  Claim C4. The unknown keys are the set difference of the used keys and the manifest's
  keys: a key is reported if and only if it is used and the manifest does not hold it.
  \<open>unknownKeys\<close> takes these two sets and nothing else.
\<close>

theorem unknownKeys_set_difference:
  "set (unknownKeys defined used) = set used - {k. JStr k \<in> defined}"
  by (auto simp: unknownKeys_def)

section \<open>The report and the exit status\<close>

text \<open>
  Claim C9, as amended. On every run whose manifest loads and whose scan completes,
  a non-empty list of unknown keys is reported by exactly one warning that lists them
  all, and an empty one by exactly one success notice; nothing else is written.
\<close>

theorem main_reports_once:
  assumes "loadManifest h = Inr manifest" and "scan_completes h"
  shows "fst (main h) =
           (if unknownKeys (set manifest) (extractAllUsedKeys h) \<noteq> []
            then [Console_warn (unknownKeys (set manifest) (extractAllUsedKeys h))]
            else [Console_log])"
  using assms(1) run_completes [OF assms(2)] by (simp add: main_def Let_def)

theorem main_reports_once_witness:
  "loadManifest array_host = Inr [JStr (js ''exampleFeature''), JStr (js ''anotherToggle'')]
   \<and> scan_completes array_host
   \<and> fst (main array_host) = [Console_warn [js ''exmapleFeature'']]
   \<and> loadManifest typo_host = Inr [JStr (js ''exampleFeature''), JStr (js ''exmapleFeature'')]
   \<and> scan_completes typo_host
   \<and> fst (main typo_host) = [Console_log]"
proof -
  have a: "loadManifest array_host = Inr [JStr (js ''exampleFeature''), JStr (js ''anotherToggle'')]"
    by (simp add: array_host_def loadManifest_def example_try)
  have t: "loadManifest typo_host = Inr [JStr (js ''exampleFeature''), JStr (js ''exmapleFeature'')]"
    by (simp add: typo_host_def loadManifest_def example_try)
  have ca: "scan_completes array_host" by (simp add: array_host_def example_completes)
  have ct: "scan_completes typo_host" by (simp add: typo_host_def example_completes)
  have ua: "extractAllUsedKeys array_host = [js ''exampleFeature'', js ''exmapleFeature'']"
    by (simp add: array_host_def example_used)
  have ut: "extractAllUsedKeys typo_host = [js ''exampleFeature'', js ''exmapleFeature'']"
    by (simp add: typo_host_def example_used)
  from main_reports_once [OF a ca]
  have "fst (main array_host) = [Console_warn [js ''exmapleFeature'']]"
    by (simp add: ua unknownKeys_def js_def)
  moreover from main_reports_once [OF t ct] have "fst (main typo_host) = [Console_log]"
    by (simp add: ut unknownKeys_def js_def)
  ultimately show ?thesis using a t ca ct by simp
qed

text \<open>
  The claim as it was stated, for every run whose manifest loads, fails when the scan
  does not complete: with a directory \<open>pages\<close> that cannot be listed the manifest loads,
  \<open>readdirSync\<close> throws, nothing catches the exception, and the run writes neither the
  warning nor the success notice.
\<close>

theorem unlisted_directory_no_report:
  "loadManifest unlisted_host = Inr [JStr (js ''exampleFeature''), JStr (js ''anotherToggle'')]
   \<and> main unlisted_host = ([Uncaught (js ''EACCES: permission denied, scandir'')], 1)"
proof -
  have "loadManifest array_host = Inr [JStr (js ''exampleFeature''), JStr (js ''anotherToggle'')]"
    by (simp add: array_host_def loadManifest_def example_try)
  then have l: "loadManifest unlisted_host
      = Inr [JStr (js ''exampleFeature''), JStr (js ''anotherToggle'')]"
    unfolding unlisted_host_def by (simp add: loadManifest_readdir_error)
  have w: "walkJsFiles_run (readdir_error unlisted_host) (SRC_DIR unlisted_host)
        (src_entries unlisted_host)
      = ([(js ''/repo/src/App.jsx'', js ''useReleaseToggle('exampleFeature')'')],
         Some (js ''EACCES: permission denied, scandir''))"
    by (simp add: unlisted_host_def array_host_def example_host_def example_tree_def SRC_DIR_def
        join_def js_ext_def ends_with_def js_def)
  have "extractAllUsedKeys_run unlisted_host = Inl (js ''EACCES: permission denied, scandir'')"
    unfolding extractAllUsedKeys_run_def w
    by (simp add: unlisted_host_def array_host_def example_host_def eval_defs)
  with l show ?thesis by (simp add: main_def)
qed

text \<open>
  Claim C1, as amended. For every source tree whose scan completes, the run ends with
  the exit status 0 whenever the manifest file is read, is parsed as JSON and the
  parsed value is not \<open>null\<close>, whether or not unknown keys are found; and for every
  source tree it ends with the exit status 2 when the manifest file cannot be read,
  when it cannot be parsed, and when it holds the JSON document \<open>null\<close>.
\<close>

theorem main_exit_status:
  "(readFileSync h (MANIFEST_PATH h) = Inl e \<longrightarrow> snd (main h) = 2)
   \<and> (readFileSync h (MANIFEST_PATH h) = Inr raw \<and> JSON_parse h raw = Inl e \<longrightarrow>
        snd (main h) = 2)
   \<and> (readFileSync h (MANIFEST_PATH h) = Inr raw \<and> JSON_parse h raw = Inr JNull \<longrightarrow>
        snd (main h) = 2)
   \<and> (readFileSync h (MANIFEST_PATH h) = Inr raw \<and> JSON_parse h raw = Inr data
        \<and> data \<noteq> JNull \<and> data \<noteq> JUndefined \<and> scan_completes h \<longrightarrow>
        snd (main h) = 0)"
proof (intro conjI impI)
  assume "readFileSync h (MANIFEST_PATH h) = Inl e"
  then show "snd (main h) = 2" by (simp add: main_def loadManifest_def loadManifest_try_def)
next
  assume "readFileSync h (MANIFEST_PATH h) = Inr raw \<and> JSON_parse h raw = Inl e"
  then show "snd (main h) = 2" by (simp add: main_def loadManifest_def loadManifest_try_def)
next
  assume "readFileSync h (MANIFEST_PATH h) = Inr raw \<and> JSON_parse h raw = Inr JNull"
  then show "snd (main h) = 2" by (simp add: main_def loadManifest_def loadManifest_try_def)
next
  assume a: "readFileSync h (MANIFEST_PATH h) = Inr raw \<and> JSON_parse h raw = Inr data
        \<and> data \<noteq> JNull \<and> data \<noteq> JUndefined \<and> scan_completes h"
  then have "\<exists>manifest. loadManifest h = Inr manifest"
    by (cases data) (simp_all add: loadManifest_def loadManifest_try_def)
  then obtain manifest where "loadManifest h = Inr manifest" ..
  moreover from a have "extractAllUsedKeys_run h = Inr (extractAllUsedKeys h)"
    by (simp add: run_completes)
  ultimately show "snd (main h) = 0" by (simp add: main_def Let_def)
qed

text \<open>
  The four cases on the example project: no manifest file, a manifest that is not
  JSON, a manifest that holds \<open>null\<close>, and the manifest of the project, with which an
  unknown key is found.
\<close>

theorem main_exit_status_witness:
  "readFileSync missing_manifest_host (MANIFEST_PATH missing_manifest_host) = Inl (js ''ENOENT'')
   \<and> snd (main missing_manifest_host) = 2
   \<and> readFileSync unparsable_host (MANIFEST_PATH unparsable_host) = Inr (js ''[,'')
   \<and> JSON_parse unparsable_host (js ''[,'') = Inl (js ''Unexpected token , in JSON'')
   \<and> snd (main unparsable_host) = 2
   \<and> readFileSync null_host (MANIFEST_PATH null_host) = Inr (js ''null'')
   \<and> JSON_parse null_host (js ''null'') = Inr JNull
   \<and> snd (main null_host) = 2
   \<and> readFileSync array_host (MANIFEST_PATH array_host)
       = Inr (js ''[\"exampleFeature\", \"anotherToggle\"]'')
   \<and> JSON_parse array_host (js ''[\"exampleFeature\", \"anotherToggle\"]'')
       = Inr (JArr [JStr (js ''exampleFeature''), JStr (js ''anotherToggle'')])
   \<and> scan_completes array_host
   \<and> snd (main array_host) = 0"
proof -
  have m: "readFileSync missing_manifest_host (MANIFEST_PATH missing_manifest_host)
      = Inl (js ''ENOENT'')"
    by (simp add: missing_manifest_host_def example_host_def MANIFEST_PATH_def js_def)
  have u: "readFileSync unparsable_host (MANIFEST_PATH unparsable_host) = Inr (js ''[,'')
      \<and> JSON_parse unparsable_host (js ''[,'') = Inl (js ''Unexpected token , in JSON'')"
    by (simp add: unparsable_host_def example_read example_parse)
  have n: "readFileSync null_host (MANIFEST_PATH null_host) = Inr (js ''null'')
      \<and> JSON_parse null_host (js ''null'') = Inr JNull"
    by (simp add: null_host_def example_read example_parse)
  have a: "readFileSync array_host (MANIFEST_PATH array_host)
        = Inr (js ''[\"exampleFeature\", \"anotherToggle\"]'')
      \<and> JSON_parse array_host (js ''[\"exampleFeature\", \"anotherToggle\"]'')
        = Inr (JArr [JStr (js ''exampleFeature''), JStr (js ''anotherToggle'')])"
    by (simp add: array_host_def example_read example_parse)
  have c: "scan_completes array_host" by (simp add: array_host_def example_completes)
  from m main_exit_status [of missing_manifest_host "js ''ENOENT''", THEN conjunct1]
  have 1: "snd (main missing_manifest_host) = 2" by blast
  from u main_exit_status [of unparsable_host _ "js ''[,''", THEN conjunct2, THEN conjunct1]
  have 2: "snd (main unparsable_host) = 2" by blast
  from n main_exit_status [of null_host _ "js ''null''",
      THEN conjunct2, THEN conjunct2, THEN conjunct1]
  have 3: "snd (main null_host) = 2" by blast
  from a c main_exit_status [of array_host _ "js ''[\"exampleFeature\", \"anotherToggle\"]''"
      "JArr [JStr (js ''exampleFeature''), JStr (js ''anotherToggle'')]",
      THEN conjunct2, THEN conjunct2, THEN conjunct2]
  have 4: "snd (main array_host) = 0" by simp
  from m u n a c 1 2 3 4 show ?thesis by (intro conjI) simp_all
qed

text \<open>
  The claim as it was stated, that every manifest file that is read and parsed gives
  the exit status 0, fails on a manifest file that holds \<open>null\<close>.
\<close>

theorem null_manifest_exit_status:
  "readFileSync null_host (MANIFEST_PATH null_host) = Inr (js ''null'')
   \<and> JSON_parse null_host (js ''null'') = Inr JNull
   \<and> snd (main null_host) = 2"
  by (simp add: null_host_def example_read example_parse main_def loadManifest_def example_try)

section \<open>The manifest\<close>

text \<open>
  Claim C3. \<open>loadManifest\<close> parses the manifest file as JSON; the elements of an array
  and the keys of an object become the key set. So a manifest that is the array of some
  keys and a manifest that is an object with these keys, whatever their values, give
  the same run on the same source tree, read with the same success: the same report
  and the same exit status.
\<close>

theorem manifest_shapes:
  assumes "readFileSync h (MANIFEST_PATH h) = Inr raw"
    and "readFileSync h' (MANIFEST_PATH h') = Inr raw'"
    and "ROOT h' = ROOT h" and "src_entries h' = src_entries h"
    and "readdir_error h' = readdir_error h" and "read_error h' = read_error h"
  shows "(JSON_parse h raw = Inr (JArr xs) \<longrightarrow> loadManifest h = Inr xs)
    \<and> (JSON_parse h raw = Inr (JObj kvs) \<longrightarrow> loadManifest h = Inr (map (\<lambda>(k, v). JStr k) kvs))
    \<and> (JSON_parse h raw = Inr (JArr (map JStr ks)) \<and> JSON_parse h' raw' = Inr (JObj kvs')
         \<and> map fst kvs' = ks \<longrightarrow> main h = main h')"
proof (intro conjI impI)
  assume "JSON_parse h raw = Inr (JArr xs)"
  with assms(1) show "loadManifest h = Inr xs"
    by (simp add: loadManifest_def loadManifest_try_def)
next
  assume "JSON_parse h raw = Inr (JObj kvs)"
  with assms(1) show "loadManifest h = Inr (map (\<lambda>(k, v). JStr k) kvs)"
    by (simp add: loadManifest_def loadManifest_try_def case_prod_beta comp_def)
next
  assume p: "JSON_parse h raw = Inr (JArr (map JStr ks)) \<and> JSON_parse h' raw' = Inr (JObj kvs')
    \<and> map fst kvs' = ks"
  with assms(1) have l: "loadManifest h = Inr (map JStr ks)"
    by (simp add: loadManifest_def loadManifest_try_def)
  from p assms(2) have l': "loadManifest h' = Inr (map JStr ks)"
    by (auto simp: loadManifest_def loadManifest_try_def)
  from assms(3-6) have "extractAllUsedKeys_run h' = extractAllUsedKeys_run h"
    by (simp add: extractAllUsedKeys_run_def SRC_DIR_def)
  with l l' show "main h = main h'"
    by (simp add: main_def)
qed

theorem manifest_shapes_witness:
  "loadManifest ab_array_host = Inr [JStr (js ''a''), JStr (js ''b'')]
   \<and> loadManifest ab_object_host = Inr [JStr (js ''a''), JStr (js ''b'')]
   \<and> main ab_array_host = main ab_object_host
   \<and> main ab_array_host = ([Console_warn [js ''exampleFeature'', js ''exmapleFeature'']], 0)"
proof -
  have r: "readFileSync ab_array_host (MANIFEST_PATH ab_array_host) = Inr (js ''[\"a\",\"b\"]'')"
    by (simp add: ab_array_host_def example_read)
  have r': "readFileSync ab_object_host (MANIFEST_PATH ab_object_host) = Inr (js ''{\"a\":{}, \"b\":{}}'')"
    by (simp add: ab_object_host_def example_read)
  have e: "ROOT ab_object_host = ROOT ab_array_host"
    "src_entries ab_object_host = src_entries ab_array_host"
    "readdir_error ab_object_host = readdir_error ab_array_host"
    "read_error ab_object_host = read_error ab_array_host"
    by (simp_all add: ab_array_host_def ab_object_host_def example_host_def)
  have p: "JSON_parse ab_array_host (js ''[\"a\",\"b\"]'') = Inr (JArr [JStr (js ''a''), JStr (js ''b'')])"
    by (simp add: ab_array_host_def example_parse)
  have p': "JSON_parse ab_object_host (js ''{\"a\":{}, \"b\":{}}'')
      = Inr (JObj [(js ''a'', JObj []), (js ''b'', JObj [])])"
    by (simp add: ab_object_host_def example_parse)
  have m: "main ab_array_host = ([Console_warn [js ''exampleFeature'', js ''exmapleFeature'']], 0)"
    by (simp add: ab_array_host_def main_def loadManifest_def example_try example_run
        unknownKeys_def js_def)
  from manifest_shapes [OF r r' e, of "[JStr (js ''a''), JStr (js ''b'')]" _ "[js ''a'', js ''b'']"
      "[(js ''a'', JObj []), (js ''b'', JObj [])]"] p
    manifest_shapes [OF r' r e [symmetric], of _ "[(js ''a'', JObj []), (js ''b'', JObj [])]"] p' m
  show ?thesis by simp
qed

text \<open>
  Claim C10. \<open>loadManifest\<close> ends the run, with the exit status 2, exactly when a step
  of its \<open>try\<close> block throws: \<open>readFileSync\<close>, \<open>JSON.parse\<close>, or \<open>Object.keys\<close> on a
  value that is not an array. In particular a manifest file that holds the JSON
  document \<open>null\<close> is fatal, a JSON number gives the empty key set, and a JSON string
  gives the decimal indices of its characters as keys.
\<close>

theorem loadManifest_fatal:
  "((\<exists>out. loadManifest h = Inl out) \<longleftrightarrow>
      (\<exists>e. readFileSync h (MANIFEST_PATH h) = Inl e)
      \<or> (\<exists>raw e. readFileSync h (MANIFEST_PATH h) = Inr raw \<and> JSON_parse h raw = Inl e)
      \<or> (\<exists>raw data e. readFileSync h (MANIFEST_PATH h) = Inr raw \<and> JSON_parse h raw = Inr data
            \<and> (\<forall>xs. data \<noteq> JArr xs) \<and> Object_keys data = Inl e))
   \<and> (\<forall>out. loadManifest h = Inl out \<longrightarrow> snd out = 2 \<and> main h = out)
   \<and> (readFileSync h (MANIFEST_PATH h) = Inr raw \<and> JSON_parse h raw = Inr JNull \<longrightarrow>
        (\<exists>e. loadManifest h = Inl ([Console_error (MANIFEST_PATH h) e], 2)))
   \<and> (readFileSync h (MANIFEST_PATH h) = Inr raw \<and> JSON_parse h raw = Inr (JNum d) \<longrightarrow>
        loadManifest h = Inr [])
   \<and> (readFileSync h (MANIFEST_PATH h) = Inr raw \<and> JSON_parse h raw = Inr (JStr s) \<longrightarrow>
        loadManifest h = Inr (map (\<lambda>i. JStr (decimal i)) [0..<length s]))"
proof -
  have "(\<exists>out. loadManifest h = Inl out) \<longleftrightarrow>
      (\<exists>e. readFileSync h (MANIFEST_PATH h) = Inl e)
      \<or> (\<exists>raw e. readFileSync h (MANIFEST_PATH h) = Inr raw \<and> JSON_parse h raw = Inl e)
      \<or> (\<exists>raw data e. readFileSync h (MANIFEST_PATH h) = Inr raw \<and> JSON_parse h raw = Inr data
            \<and> (\<forall>xs. data \<noteq> JArr xs) \<and> Object_keys data = Inl e)"
  proof (cases "readFileSync h (MANIFEST_PATH h)")
    case (Inl e)
    then show ?thesis by (simp add: loadManifest_def loadManifest_try_def)
  next
    case (Inr raw)
    note read = this
    show ?thesis
    proof (cases "JSON_parse h raw")
      case (Inl e)
      with read show ?thesis by (simp add: loadManifest_def loadManifest_try_def)
    next
      case (Inr data)
      with read show ?thesis
        by (cases data) (simp_all add: loadManifest_def loadManifest_try_def)
    qed
  qed
  moreover have "\<forall>out. loadManifest h = Inl out \<longrightarrow> snd out = 2 \<and> main h = out"
    by (auto simp: loadManifest_def main_def split: sum.splits)
  moreover have "readFileSync h (MANIFEST_PATH h) = Inr raw \<and> JSON_parse h raw = Inr JNull \<longrightarrow>
        (\<exists>e. loadManifest h = Inl ([Console_error (MANIFEST_PATH h) e], 2))"
    by (simp add: loadManifest_def loadManifest_try_def)
  moreover have "readFileSync h (MANIFEST_PATH h) = Inr raw \<and> JSON_parse h raw = Inr (JNum d) \<longrightarrow>
        loadManifest h = Inr []"
    by (simp add: loadManifest_def loadManifest_try_def)
  moreover have "readFileSync h (MANIFEST_PATH h) = Inr raw \<and> JSON_parse h raw = Inr (JStr s) \<longrightarrow>
        loadManifest h = Inr (map (\<lambda>i. JStr (decimal i)) [0..<length s])"
    by (simp add: loadManifest_def loadManifest_try_def comp_def)
  ultimately show ?thesis by (intro conjI)
qed

theorem loadManifest_fatal_witness:
  "readFileSync null_document_host (MANIFEST_PATH null_document_host) = Inr (js ''null'')
   \<and> JSON_parse null_document_host (js ''null'') = Inr JNull
   \<and> snd (main null_document_host) = 2
   \<and> readFileSync number_host (MANIFEST_PATH number_host) = Inr (js ''7'')
   \<and> JSON_parse number_host (js ''7'') = Inr (JNum 0x401C000000000000)
   \<and> loadManifest number_host = Inr []
   \<and> readFileSync string_host (MANIFEST_PATH string_host) = Inr (js ''\"ab\"'')
   \<and> JSON_parse string_host (js ''\"ab\"'') = Inr (JStr (js ''ab''))
   \<and> loadManifest string_host = Inr [JStr (js ''0''), JStr (js ''1'')]
   \<and> JSON_parse broken_host (js ''{'') = Inl (js ''Unexpected end of JSON input'')
   \<and> snd (main broken_host) = 2"
proof -
  have n: "readFileSync null_document_host (MANIFEST_PATH null_document_host) = Inr (js ''null'')
      \<and> JSON_parse null_document_host (js ''null'') = Inr JNull"
    by (simp add: null_document_host_def example_read example_parse)
  have d: "readFileSync number_host (MANIFEST_PATH number_host) = Inr (js ''7'')
      \<and> JSON_parse number_host (js ''7'') = Inr (JNum 0x401C000000000000)"
    by (simp add: number_host_def example_read example_parse)
  have s: "readFileSync string_host (MANIFEST_PATH string_host) = Inr (js ''\"ab\"'')
      \<and> JSON_parse string_host (js ''\"ab\"'') = Inr (JStr (js ''ab''))"
    by (simp add: string_host_def example_read example_parse)
  have b: "readFileSync broken_host (MANIFEST_PATH broken_host) = Inr (js ''{'')
      \<and> JSON_parse broken_host (js ''{'') = Inl (js ''Unexpected end of JSON input'')"
    by (simp add: broken_host_def example_read example_parse)
  have idx: "map (\<lambda>i. JStr (decimal i)) [0..<length (js ''ab'')] = [JStr (js ''0''), JStr (js ''1'')]"
    by (simp add: js_def decimal.simps upt_conv_Cons)
  note null_case = loadManifest_fatal [of null_document_host "js ''null''",
      THEN conjunct2, THEN conjunct2, THEN conjunct1]
  note exits = loadManifest_fatal [THEN conjunct2, THEN conjunct1, rule_format]
  from n null_case obtain e where
    "loadManifest null_document_host = Inl ([Console_error (MANIFEST_PATH null_document_host) e], 2)"
    by blast
  from exits [OF this] have 1: "snd (main null_document_host) = 2" by simp
  from d loadManifest_fatal [of number_host "js ''7''" "0x401C000000000000",
      THEN conjunct2, THEN conjunct2, THEN conjunct2, THEN conjunct1]
  have 2: "loadManifest number_host = Inr []" by blast
  from s loadManifest_fatal [of string_host "js ''\"ab\"''" _ "js ''ab''",
      THEN conjunct2, THEN conjunct2, THEN conjunct2, THEN conjunct2]
  have "loadManifest string_host = Inr (map (\<lambda>i. JStr (decimal i)) [0..<length (js ''ab'')])"
    by blast
  with idx have 3: "loadManifest string_host = Inr [JStr (js ''0''), JStr (js ''1'')]" by simp
  from b loadManifest_fatal [of broken_host, THEN conjunct1]
  obtain out where "loadManifest broken_host = Inl out" by blast
  from exits [OF this] have 4: "snd (main broken_host) = 2" by simp
  from 1 2 3 4 n d s b show ?thesis by simp
qed

section \<open>The used keys as a set\<close>








section \<open>The order of the traversal\<close>

lemma walkJsFiles_append:
  "walkJsFiles dir (es @ es') = walkJsFiles dir es @ walkJsFiles dir es'"
  by (induction es) auto

lemma reordered_walk:
  "reordered es es' \<Longrightarrow> set (walkJsFiles dir es) = set (walkJsFiles dir es')"
proof (induction arbitrary: dir rule: reordered.induct)
  case (same es)
  show ?case by simp
next
  case (swap pre a b post)
  show ?case by (auto simp: walkJsFiles_append)
next
  case (inside sub sub' pre name post)
  then show ?case by (simp add: walkJsFiles_append)
next
  case (step es es' es'')
  then show ?case by simp
qed

lemma walked_dirs_append:
  "walked_dirs dir (es @ es') = walked_dirs dir es @ walked_dirs dir es'"
  by (induction es) auto

lemma reordered_walked_dirs:
  "reordered es es' \<Longrightarrow> set (walked_dirs dir es) = set (walked_dirs dir es')"
proof (induction arbitrary: dir rule: reordered.induct)
  case (same es)
  show ?case by simp
next
  case (swap pre a b post)
  show ?case by (auto simp: walked_dirs_append)
next
  case (inside sub sub' pre name post)
  then show ?case by (simp add: walked_dirs_append)
next
  case (step es es' es'')
  then show ?case by simp
qed

lemma main_status:
  assumes "loadManifest h = Inr manifest"
  shows "snd (main h) = (if scan_completes h then 0 else 1)"
proof (cases "scan_completes h")
  case True
  from run_completes [OF this] assms True show ?thesis by (simp add: main_def Let_def)
next
  case False
  from run_interrupted [OF this] obtain e where "extractAllUsedKeys_run h = Inl e" ..
  with assms False show ?thesis by (simp add: main_def)
qed

lemma for_files_order:
  "set files' = set files \<Longrightarrow>
   set (fst (for_files files' 0 [])) = set (fst (for_files files 0 []))"
  by (simp add: for_files_set)

text \<open>
  Claim C8. The run is a function of the manifest and of the file tree, so two runs on
  the same manifest and tree report the same unknown keys; and the set of unknown keys
  does not depend on the order in which the files are traversed: any two traversals
  that meet the same files give the same set, and so do two listings of the same tree
  that differ in the order of the directory entries.
\<close>

theorem unknown_keys_order_independent:
  "(set files' = set files \<longrightarrow>
      set (unknownKeys defined (fst (for_files files' 0 [])))
        = set (unknownKeys defined (fst (for_files files 0 []))))
   \<and> (reordered (src_entries h) es' \<longrightarrow>
        set (unknownKeys defined (extractAllUsedKeys (h\<lparr>src_entries := es'\<rparr>)))
          = set (unknownKeys defined (extractAllUsedKeys h))
        \<and> snd (main (h\<lparr>src_entries := es'\<rparr>)) = snd (main h))"
proof (intro conjI impI)
  assume "set files' = set files"
  from for_files_order [OF this]
  show "set (unknownKeys defined (fst (for_files files' 0 [])))
        = set (unknownKeys defined (fst (for_files files 0 [])))"
    by (simp add: unknownKeys_def)
next
  assume r: "reordered (src_entries h) es'"
  from reordered_walk [OF r, of "SRC_DIR h"]
  have "set (extractAllUsedKeys (h\<lparr>src_entries := es'\<rparr>)) = set (extractAllUsedKeys h)"
    by (simp add: extractAllUsedKeys_set SRC_DIR_def)
  then show "set (unknownKeys defined (extractAllUsedKeys (h\<lparr>src_entries := es'\<rparr>)))
          = set (unknownKeys defined (extractAllUsedKeys h))"
    by (simp add: unknownKeys_def)
next
  assume r: "reordered (src_entries h) es'"
  have p: "MANIFEST_PATH (h\<lparr>src_entries := es'\<rparr>) = MANIFEST_PATH h"
    by (simp add: MANIFEST_PATH_def cong: option.case_cong if_cong)
  have "loadManifest_try (h\<lparr>src_entries := es'\<rparr>) = loadManifest_try h"
    by (simp add: loadManifest_try_def p cong: sum.case_cong)
  with p have l: "loadManifest (h\<lparr>src_entries := es'\<rparr>) = loadManifest h"
    by (simp add: loadManifest_def cong: sum.case_cong)
  from reordered_walk [OF r, of "SRC_DIR h"] reordered_walked_dirs [OF r, of "SRC_DIR h"]
  have c: "scan_completes (h\<lparr>src_entries := es'\<rparr>) = scan_completes h"
    by (simp add: scan_completes_def SRC_DIR_def)
  show "snd (main (h\<lparr>src_entries := es'\<rparr>)) = snd (main h)"
  proof (cases "loadManifest h")
    case (Inl out)
    with l show ?thesis by (simp add: main_def)
  next
    case (Inr manifest)
    with l main_status [of h manifest] main_status [of "h\<lparr>src_entries := es'\<rparr>" manifest] c
    show ?thesis by simp
  qed
qed

lemma example_reordered_used:
  "extractAllUsedKeys (array_host\<lparr>src_entries := example_tree_reordered\<rparr>)
     = [js ''exmapleFeature'', js ''exampleFeature'']"
  by (simp add: extractAllUsedKeys_def array_host_def example_host_def example_tree_reordered_def
      SRC_DIR_def eval_defs)

theorem unknown_keys_order_independent_witness:
  "reordered (src_entries array_host) example_tree_reordered
   \<and> extractAllUsedKeys (array_host\<lparr>src_entries := example_tree_reordered\<rparr>)
       = [js ''exmapleFeature'', js ''exampleFeature'']
   \<and> extractAllUsedKeys array_host = [js ''exampleFeature'', js ''exmapleFeature'']
   \<and> set (unknownKeys {JStr (js ''exampleFeature'')}
            (extractAllUsedKeys (array_host\<lparr>src_entries := example_tree_reordered\<rparr>)))
       = set (unknownKeys {JStr (js ''exampleFeature'')} (extractAllUsedKeys array_host))
   \<and> set [(js ''b.js'', js ''useReleaseToggle('b')''), (js ''a.js'', js ''useReleaseToggle('a')'')]
       = set [(js ''a.js'', js ''useReleaseToggle('a')''), (js ''b.js'', js ''useReleaseToggle('b')'')]
   \<and> set (unknownKeys {}
            (fst (for_files [(js ''b.js'', js ''useReleaseToggle('b')''),
                             (js ''a.js'', js ''useReleaseToggle('a')'')] 0 [])))
       = set (unknownKeys {}
            (fst (for_files [(js ''a.js'', js ''useReleaseToggle('a')''),
                             (js ''b.js'', js ''useReleaseToggle('b')'')] 0 [])))"
proof -
  have r: "reordered (src_entries array_host) example_tree_reordered"
    using reordered.swap [of "[]" "File (js ''App.jsx'') (js ''useReleaseToggle('exampleFeature')'')"
        "Dir (js ''pages'') [File (js ''Home.tsx'') (js ''useReleaseToggle('exmapleFeature')'')]"
        "[Dir (js ''node_modules'') [File (js ''dep.js'') (js ''useReleaseToggle('vendored')'')]]"]
    by (simp add: array_host_def example_host_def example_tree_def example_tree_reordered_def)
  have s: "set [(js ''b.js'', js ''useReleaseToggle('b')''), (js ''a.js'', js ''useReleaseToggle('a')'')]
       = set [(js ''a.js'', js ''useReleaseToggle('a')''), (js ''b.js'', js ''useReleaseToggle('b')'')]"
    by auto
  have u: "extractAllUsedKeys array_host = [js ''exampleFeature'', js ''exmapleFeature'']"
    by (simp add: array_host_def example_used)
  note t = unknown_keys_order_independent
    [of "[(js ''b.js'', js ''useReleaseToggle('b')''), (js ''a.js'', js ''useReleaseToggle('a')'')]"
        "[(js ''a.js'', js ''useReleaseToggle('a')''), (js ''b.js'', js ''useReleaseToggle('b')'')]"
        "{}", THEN conjunct1, rule_format, OF s]
  note t' = unknown_keys_order_independent
    [of _ _ "{JStr (js ''exampleFeature'')}" array_host example_tree_reordered,
      THEN conjunct2, rule_format, OF r, THEN conjunct1]
  from r s u t t' example_reordered_used show ?thesis by (intro conjI)
qed

section \<open>What the walk yields\<close>










section \<open>What TOGGLE_CALL_RE matches\<close>

lemma strip_literal_append: "strip_literal p (p @ r) = Some r"
  by (induction p) auto

lemma strip_literal_Some: "strip_literal p xs = Some r \<Longrightarrow> xs = p @ r"
  by (induction p xs rule: strip_literal.induct) (auto split: if_splits)

lemma dropWhile_Cons_decomp:
  assumes "dropWhile P xs = y # ys"
  shows "xs = takeWhile P xs @ y # ys" and "\<not> P y" and "\<forall>c \<in> set (takeWhile P xs). P c"
proof -
  from takeWhile_dropWhile_id [of P xs] assms show "xs = takeWhile P xs @ y # ys" by simp
  from assms hd_dropWhile [of P xs] show "\<not> P y" by auto
  show "\<forall>c \<in> set (takeWhile P xs). P c" by (auto dest: set_takeWhileD)
qed

lemma dropWhile_run: "\<forall>c \<in> set ws. P c \<Longrightarrow> \<not> P y \<Longrightarrow> dropWhile P (ws @ y # ys) = y # ys"
  by (induction ws) auto

lemma takeWhile_run: "\<forall>c \<in> set ws. P c \<Longrightarrow> \<not> P y \<Longrightarrow> takeWhile P (ws @ y # ys) = ws"
  by (induction ws) auto

lemma quote_not_space: "is_quote q \<Longrightarrow> \<not> is_space q"
  by (auto simp: is_quote_def is_space_def)

lemma paren_not_space: "\<not> is_space 0x28"
  by (simp add: is_space_def)

text \<open>
  Whatever way the pattern matches a prefix of the input, \<open>match_here\<close> returns that
  match: the match at a position is unique, and the order in which a backtracking
  matcher tries the repetitions does not matter.
\<close>

lemma match_here_complete:
  assumes "toggle_call m key"
  shows "match_here (m @ rest) = Some (key, rest)"
proof -
  from assms obtain ws1 ws2 q1 q2 where
    m: "m = js ''useReleaseToggle'' @ ws1 @ [0x28] @ ws2 @ [q1] @ key @ [q2]"
    and w1: "\<forall>c \<in> set ws1. is_space c" and w2: "\<forall>c \<in> set ws2. is_space c"
    and q1: "is_quote q1" and q2: "is_quote q2" and k: "key \<noteq> []"
    and nq: "\<forall>c \<in> set key. \<not> is_quote c"
    unfolding toggle_call_def by blast
  have a: "strip_literal (js ''useReleaseToggle'') (m @ rest)
      = Some (ws1 @ 0x28 # ws2 @ q1 # key @ q2 # rest)"
    unfolding m using strip_literal_append [of "js ''useReleaseToggle''"
        "ws1 @ 0x28 # ws2 @ q1 # key @ q2 # rest"] by simp
  have b: "dropWhile is_space (ws1 @ 0x28 # ws2 @ q1 # key @ q2 # rest)
      = 0x28 # ws2 @ q1 # key @ q2 # rest"
    by (rule dropWhile_run [OF w1 paren_not_space])
  have c: "dropWhile is_space (ws2 @ q1 # key @ q2 # rest) = q1 # key @ q2 # rest"
    by (rule dropWhile_run [OF w2 quote_not_space [OF q1]])
  from nq have nq': "\<forall>c \<in> set key. \<not> is_quote c" "\<not> \<not> is_quote q2" using q2 by simp_all
  have d: "takeWhile (\<lambda>c. \<not> is_quote c) (key @ q2 # rest) = key"
    by (rule takeWhile_run [OF nq'])
  have e: "dropWhile (\<lambda>c. \<not> is_quote c) (key @ q2 # rest) = q2 # rest"
    by (rule dropWhile_run [OF nq'])
  show ?thesis
    unfolding match_here_def a by (simp add: b c d e q1 k)
qed

lemma match_here_sound:
  assumes "match_here xs = Some (key, rest)"
  shows "\<exists>m. xs = m @ rest \<and> toggle_call m key"
proof -
  from assms obtain r1 r2 q r3 q' where
    a: "strip_literal (js ''useReleaseToggle'') xs = Some r1"
    and b: "dropWhile is_space r1 = 0x28 # r2"
    and c: "dropWhile is_space r2 = q # r3"
    and q: "is_quote q"
    and d: "dropWhile (\<lambda>c. \<not> is_quote c) r3 = q' # rest"
    and k: "key = takeWhile (\<lambda>c. \<not> is_quote c) r3" "key \<noteq> []"
    unfolding match_here_def
    by (auto split: option.splits list.splits if_splits simp: Let_def)
  let ?ws1 = "takeWhile is_space r1" and ?ws2 = "takeWhile is_space r2"
  from strip_literal_Some [OF a] dropWhile_Cons_decomp(1) [OF b] dropWhile_Cons_decomp(1) [OF c]
    dropWhile_Cons_decomp(1) [OF d] k(1)
  have "xs = (js ''useReleaseToggle'' @ ?ws1 @ [0x28] @ ?ws2 @ [q] @ key @ [q']) @ rest"
    by simp
  moreover have "toggle_call (js ''useReleaseToggle'' @ ?ws1 @ [0x28] @ ?ws2 @ [q] @ key @ [q']) key"
    unfolding toggle_call_def
    using dropWhile_Cons_decomp(3) [OF b] dropWhile_Cons_decomp(3) [OF c]
      dropWhile_Cons_decomp(2) [OF d] dropWhile_Cons_decomp(3) [OF d] q k
    by blast
  ultimately show ?thesis by blast
qed

lemma match_here_None: "match_here xs = None \<longleftrightarrow> \<not> call_at_start xs"
proof
  assume n: "match_here xs = None"
  show "\<not> call_at_start xs"
  proof
    assume "call_at_start xs"
    then obtain m key rest where "xs = m @ rest" "toggle_call m key"
      unfolding call_at_start_def by blast
    with match_here_complete [of m key rest] n show False by simp
  qed
next
  assume n: "\<not> call_at_start xs"
  show "match_here xs = None"
  proof (cases "match_here xs")
    case None
    then show ?thesis .
  next
    case (Some r)
    obtain key rest where "r = (key, rest)" by (cases r)
    with Some match_here_sound [of xs key rest] n show ?thesis
      unfolding call_at_start_def by blast
  qed
qed

lemma search_unfold:
  "search xs =
     (case match_here xs of
        Some r \<Rightarrow> Some r
      | None \<Rightarrow> (case xs of [] \<Rightarrow> None | c # cs \<Rightarrow> search cs))"
  by (cases xs) (auto split: option.splits)

lemma search_found:
  assumes "toggle_call m key"
  shows "\<forall>i < length pre. \<not> call_at_start (drop i (pre @ m @ rest)) \<Longrightarrow>
         search (pre @ m @ rest) = Some (key, rest)"
proof (induction pre)
  case Nil
  from match_here_complete [OF assms, of rest] show ?case
    by (subst search_unfold) simp
next
  case (Cons a pre)
  from Cons.prems have "\<not> call_at_start (drop 0 ((a # pre) @ m @ rest))" by blast
  then have n: "match_here (a # pre @ m @ rest) = None" by (simp add: match_here_None)
  have "\<forall>i < length pre. \<not> call_at_start (drop i (pre @ m @ rest))"
  proof (intro allI impI)
    fix i assume "i < length pre"
    then have "Suc i < length (a # pre)" by simp
    with Cons.prems have "\<not> call_at_start (drop (Suc i) ((a # pre) @ m @ rest))" by blast
    then show "\<not> call_at_start (drop i (pre @ m @ rest))" by simp
  qed
  from Cons.IH [OF this] n show ?case by simp
qed

lemma search_nowhere:
  "\<forall>i \<le> length xs. \<not> call_at_start (drop i xs) \<Longrightarrow> search xs = None"
proof (induction xs)
  case Nil
  then show ?case by (simp add: match_here_None)
next
  case (Cons a xs)
  from Cons.prems have "\<not> call_at_start (drop 0 (a # xs))" by blast
  then have n: "match_here (a # xs) = None" by (simp add: match_here_None)
  have "\<forall>i \<le> length xs. \<not> call_at_start (drop i xs)"
  proof (intro allI impI)
    fix i assume "i \<le> length xs"
    then have "Suc i \<le> length (a # xs)" by simp
    with Cons.prems have "\<not> call_at_start (drop (Suc i) (a # xs))" by blast
    then show "\<not> call_at_start (drop i xs)" by simp
  qed
  from Cons.IH [OF this] n show ?case by simp
qed

lemma search_None_nowhere:
  "search xs = None \<Longrightarrow> \<forall>i \<le> length xs. \<not> call_at_start (drop i xs)"
proof (induction xs)
  case Nil
  then show ?case by (simp add: match_here_None)
next
  case (Cons a xs)
  from Cons.prems have n: "match_here (a # xs) = None" and s: "search xs = None"
    by (auto split: option.splits)
  show ?case
  proof (intro allI impI)
    fix i assume i: "i \<le> length (a # xs)"
    show "\<not> call_at_start (drop i (a # xs))"
    proof (cases i)
      case 0
      with n show ?thesis by (simp add: match_here_None)
    next
      case (Suc j)
      with i Cons.IH [OF s] show ?thesis by simp
    qed
  qed
qed

lemma search_Some_leftmost:
  "search xs = Some (key, rest) \<Longrightarrow>
   \<exists>pre m. xs = pre @ m @ rest \<and> toggle_call m key
     \<and> (\<forall>i < length pre. \<not> call_at_start (drop i xs))"
proof (induction xs)
  case Nil
  then have "match_here [] = Some (key, rest)" by simp
  from match_here_sound [OF this] obtain m where "[] = m @ rest" "toggle_call m key" by blast
  then have "[] = [] @ m @ rest \<and> toggle_call m key
     \<and> (\<forall>i < length ([] :: jsstring). \<not> call_at_start (drop i []))" by simp
  then show ?case by blast
next
  case (Cons a xs)
  show ?case
  proof (cases "match_here (a # xs)")
    case (Some r)
    with Cons.prems have "match_here (a # xs) = Some (key, rest)" by simp
    from match_here_sound [OF this] obtain m where "a # xs = m @ rest" "toggle_call m key"
      by blast
    then have "a # xs = [] @ m @ rest \<and> toggle_call m key
      \<and> (\<forall>i < length ([] :: jsstring). \<not> call_at_start (drop i (a # xs)))" by simp
    then show ?thesis by blast
  next
    case None
    with Cons.prems have "search xs = Some (key, rest)" by simp
    from Cons.IH [OF this] obtain pre m where x: "xs = pre @ m @ rest" and t: "toggle_call m key"
      and l: "\<forall>i < length pre. \<not> call_at_start (drop i xs)" by blast
    have "\<forall>i < length (a # pre). \<not> call_at_start (drop i (a # xs))"
    proof (intro allI impI)
      fix i assume i: "i < length (a # pre)"
      show "\<not> call_at_start (drop i (a # xs))"
      proof (cases i)
        case 0
        with None show ?thesis by (simp add: match_here_None)
      next
        case (Suc j)
        with i l show ?thesis by simp
      qed
    qed
    with x t have "a # xs = (a # pre) @ m @ rest \<and> toggle_call m key
      \<and> (\<forall>i < length (a # pre). \<not> call_at_start (drop i (a # xs)))" by simp
    then show ?thesis by blast
  qed
qed

lemma toggle_call_nonempty: "toggle_call m key \<Longrightarrow> m \<noteq> []"
  by (auto simp: toggle_call_def)

lemma search_shorter: "search xs = Some (key, rest) \<Longrightarrow> length rest < length xs"
proof -
  assume "search xs = Some (key, rest)"
  from search_Some_leftmost [OF this] obtain pre m where "xs = pre @ m @ rest" "toggle_call m key"
    by blast
  with toggle_call_nonempty [of m key] show ?thesis by simp
qed

lemma successive_matches_exist: "\<exists>keys. successive_matches xs keys"
proof (induction xs rule: length_induct)
  case (1 xs)
  show ?case
  proof (cases "search xs")
    case None
    from search_None_nowhere [OF this] have "successive_matches xs []"
      by (rule successive_matches.no_match)
    then show ?thesis ..
  next
    case (Some r)
    obtain key rest where r: "r = (key, rest)" by (cases r)
    with Some have s: "search xs = Some (key, rest)" by simp
    from search_Some_leftmost [OF s] obtain pre m where x: "xs = pre @ m @ rest"
      and t: "toggle_call m key" and l: "\<forall>i < length pre. \<not> call_at_start (drop i xs)"
      by blast
    from search_shorter [OF s] "1.IH" obtain keys where "successive_matches rest keys" by blast
    with t l x have "successive_matches xs (key # keys)"
      using successive_matches.match [of m key pre rest keys] by simp
    then show ?thesis ..
  qed
qed

lemma drop_to_rest:
  assumes "drop li content = ys @ rest" and "li \<le> length content"
  shows "drop (length content - length rest) content = rest"
proof -
  have "content = (take li content @ ys) @ rest"
    using append_take_drop_id [of li content] assms(1) by simp
  then have "drop (length (take li content @ ys)) content = rest"
    by (metis append_eq_conv_conj)
  moreover have "length content - length rest = length (take li content @ ys)"
    using \<open>content = (take li content @ ys) @ rest\<close>
    by (metis add_diff_cancel_right' length_append)
  ultimately show ?thesis by simp
qed

lemma while_exec_matches:
  "successive_matches xs keys \<Longrightarrow> li \<le> length content \<Longrightarrow> drop li content = xs \<Longrightarrow>
   set (fst (while_exec content li keys0)) = set keys0 \<union> set keys"
proof (induction arbitrary: li keys0 rule: successive_matches.induct)
  case (no_match xs)
  from search_nowhere [OF no_match.hyps] no_match.prems
  have "TOGGLE_CALL_RE_exec content li = (None, 0)"
    by (simp add: TOGGLE_CALL_RE_exec_def)
  then show ?case by (subst while_exec_unfold) simp
next
  case (match m key pre rest keys)
  from search_found [OF match.hyps(1) match.hyps(2)] match.prems
  have e: "TOGGLE_CALL_RE_exec content li = (Some key, length content - length rest)"
    by (simp add: TOGGLE_CALL_RE_exec_def)
  from match.prems have "drop li content = (pre @ m) @ rest" by simp
  from drop_to_rest [OF this match.prems(1)]
  have d: "drop (length content - length rest) content = rest" .
  have "set (fst (while_exec content (length content - length rest) (Set_add key keys0)))
      = set (Set_add key keys0) \<union> set keys"
    by (rule match.IH [OF _ d]) simp
  with e show ?case
    by (subst while_exec_unfold) (simp add: Set_add_set)
qed

text \<open>
  Claim C2, as amended. For every file content, \<open>extractToggleKeysFromFile\<close> returns
  exactly the set of the captures of the successive matches of the pattern, found from
  left to right without overlap: the hook name, optional white space, an opening
  parenthesis, optional white space, one of the three quote characters, a non-empty
  run of characters that are none of the three quote characters, captured as it is
  written, and one of the three quote characters, which need not be the opening one.
  Such matches always exist as a list, a call whose first argument is not of this
  form adds nothing, and a source with \<open>useReleaseToggle('known')\<close>,
  \<open>useReleaseToggle("unknown1")\<close> and \<open>useReleaseToggle(variableName)\<close> gives exactly
  \<open>known\<close> and \<open>unknown1\<close>.
\<close>

theorem extract_successive_matches:
  "(\<exists>keys. successive_matches content keys)
   \<and> (\<forall>keys. successive_matches content keys \<longrightarrow>
         set (fst (extractToggleKeysFromFile (path, content) 0)) = set keys)
   \<and> fst (extractToggleKeysFromFile
        (path, js ''useReleaseToggle('known'); useReleaseToggle(\"unknown1\"); useReleaseToggle(variableName)'') 0)
       = [js ''known'', js ''unknown1'']"
proof (intro conjI allI impI)
  show "\<exists>keys. successive_matches content keys" by (rule successive_matches_exist)
next
  fix keys assume "successive_matches content keys"
  from while_exec_matches [OF this, of 0 content "[]"]
  show "set (fst (extractToggleKeysFromFile (path, content) 0)) = set keys"
    by (simp add: extractToggleKeysFromFile_def)
next
  show "fst (extractToggleKeysFromFile
        (path, js ''useReleaseToggle('known'); useReleaseToggle(\"unknown1\"); useReleaseToggle(variableName)'') 0)
       = [js ''known'', js ''unknown1'']"
    by (simp add: eval_defs)
qed

text \<open>The one match in \<open>useReleaseToggle( `beta`)\<close>, and what the extraction returns for it.\<close>

theorem extract_successive_matches_witness:
  "successive_matches (js ''useReleaseToggle( `beta`)'') [js ''beta'']
   \<and> set (fst (extractToggleKeysFromFile (js ''App.jsx'', js ''useReleaseToggle( `beta`)'') 0))
       = set [js ''beta'']"
proof -
  have t: "toggle_call (js ''useReleaseToggle( `beta`'') (js ''beta'')"
  proof -
    have "js ''useReleaseToggle( `beta`''
        = js ''useReleaseToggle'' @ [] @ [0x28] @ [0x20] @ [0x60] @ js ''beta'' @ [0x60]
      \<and> (\<forall>c \<in> set ([] :: jsstring). is_space c) \<and> (\<forall>c \<in> set [0x20]. is_space c)
      \<and> is_quote 0x60 \<and> is_quote 0x60 \<and> js ''beta'' \<noteq> []
      \<and> (\<forall>c \<in> set (js ''beta''). \<not> is_quote c)"
      by (simp add: js_def is_space_def is_quote_def)
    then show ?thesis unfolding toggle_call_def by blast
  qed
  have "\<not> call_at_start (js '')'')" "\<not> call_at_start []"
    unfolding match_here_None [symmetric] by (simp_all add: match_here_def js_def)
  then have "\<forall>i \<le> length (js '')''). \<not> call_at_start (drop i (js '')''))"
    by (auto simp: js_def le_Suc_eq)
  then have r: "successive_matches (js '')'') []" by (rule successive_matches.no_match)
  have "successive_matches ([] @ js ''useReleaseToggle( `beta`'' @ js '')'') [js ''beta'']"
    by (rule successive_matches.match [OF t _ r]) simp
  then have s: "successive_matches (js ''useReleaseToggle( `beta`)'') [js ''beta'']"
    by (simp add: js_def)
  from extract_successive_matches [of "js ''useReleaseToggle( `beta`)''" "js ''App.jsx''",
      THEN conjunct2, THEN conjunct1, rule_format, OF s] s
  show ?thesis by (intro conjI)
qed

text \<open>
  In \<open>useReleaseToggle("it's")\<close> the first argument is the double-quoted literal
  \<open>it's\<close>; the extraction returns \<open>it\<close>, which is not the content of any literal there.
\<close>

theorem extract_literal_counterexample:
  "literal_call (js ''useReleaseToggle(\"it's\")'') (js ''it's'')
   \<and> fst (extractToggleKeysFromFile (js ''App.jsx'', js ''useReleaseToggle(\"it's\")'') 0)
       = [js ''it'']
   \<and> js ''it's'' \<notin> set (fst (extractToggleKeysFromFile
                               (js ''App.jsx'', js ''useReleaseToggle(\"it's\")'') 0))"
proof -
  have "js ''useReleaseToggle(\"it's\")''
      = [] @ js ''useReleaseToggle'' @ [] @ [0x28] @ [] @ [0x22] @ js ''it's'' @ [0x22] @ js '')''
    \<and> (\<forall>c \<in> set ([] :: jsstring). is_space c) \<and> (\<forall>c \<in> set ([] :: jsstring). is_space c)
    \<and> is_quote 0x22 \<and> 0x22 \<notin> set (js ''it's'')
    \<and> ((0x22 :: nat) = 0x60 \<longrightarrow> \<not> (\<exists>a b. js ''it's'' = a @ js ''${'' @ b))"
    by (simp add: js_def is_quote_def)
  then have l: "literal_call (js ''useReleaseToggle(\"it's\")'') (js ''it's'')"
    unfolding literal_call_def by blast
  have e: "fst (extractToggleKeysFromFile (js ''App.jsx'', js ''useReleaseToggle(\"it's\")'') 0)
       = [js ''it'']"
    by (simp add: eval_defs)
  have "js ''it's'' \<notin> set [js ''it'']" by (simp add: js_def)
  with l e show ?thesis by simp
qed

end
